theory Spec2Isabelle
  imports Complex_Main
begin

section \<open>The example notebook\<close>

text \<open>
  The repository's sources are the notebook
  \<^verbatim>\<open>examples/01_Simple_GP_Regression/Simple_GP_Regression_Fully_Bayesian.ipynb\<close> and a
  continuous-integration file. The linear-algebra engine the specification describes
  (lazy operators, conjugate gradients) is not among them; it is modelled from the
  specification in the later sections.

  Tensors of rank one are lists of reals and the arithmetic of the tensor library is taken
  exact.
\<close>

text \<open>
  \<^verbatim>\<open>torch.linspace(start, end, steps)\<close> returns \<open>steps\<close> values, the \<open>i\<close>-th being
  \<open>start + i * (end - start) / (steps - 1)\<close>, and the single value \<open>start\<close> when
  \<open>steps = 1\<close>.
\<close>

definition linspace :: "real \<Rightarrow> real \<Rightarrow> nat \<Rightarrow> real list" where
  "linspace start end steps =
     (if steps = 1 then [start]
      else map (\<lambda>i. start + real i * ((end - start) / real (steps - 1))) [0..<steps])"

text \<open>
  \<^verbatim>\<open>torch.randn(size)\<close> draws one standard normal value per element of the requested size.
  The draws are the values of a noise source \<open>g\<close>, a parameter of the model.
\<close>

definition randn :: "(nat \<Rightarrow> real) \<Rightarrow> nat \<Rightarrow> real list" where
  "randn g n = map g [0..<n]"

text \<open>
  Cell 2 of the notebook:
  \<^verbatim>\<open>
  # Training data is 11 points in [0,1] inclusive regularly spaced
  train_x = torch.linspace(0, 1, 6)
  # True function is sin(2*pi*x) with Gaussian noise
  train_y = torch.sin(train_x * (2 * math.pi)) + torch.randn(train_x.size()) * 0.2
  \<close>
\<close>

definition train_x :: "real list" where
  "train_x = linspace 0 1 6"

definition train_y :: "(nat \<Rightarrow> real) \<Rightarrow> real list" where
  "train_y g =
     map2 (+) (map sin (map (\<lambda>x. x * (2 * pi)) train_x))
              (map (\<lambda>e. e * (2 / 10)) (randn g (length train_x)))"

section \<open>Vectors and dense matrices\<close>

text \<open>
  Modelled from the spec: the numeric layer under the operators (the tensor type and its
  element-wise arithmetic belong to the engine, which is not in the sources). Vectors are
  lists of reals, dense matrices lists of rows; the configurable floating-point precision
  is idealised to exact real arithmetic. Element-wise operations pair the entries as
  \<open>zip\<close> does; every use below is on vectors of one length.
\<close>

type_synonym vec = "real list"

type_synonym mat = "real list list"

text \<open>Modelled from the spec: the inner product of two vectors (engine arithmetic).\<close>

definition dot :: "vec \<Rightarrow> vec \<Rightarrow> real" where
  "dot u v = sum_list (map2 (*) u v)"

text \<open>Modelled from the spec: the element-wise sum and difference (engine arithmetic).\<close>

definition vadd :: "vec \<Rightarrow> vec \<Rightarrow> vec" where
  "vadd u v = map2 (+) u v"

definition vsub :: "vec \<Rightarrow> vec \<Rightarrow> vec" where
  "vsub u v = map2 (-) u v"

text \<open>Modelled from the spec: the multiple of a vector by a scalar (engine arithmetic).\<close>

definition smul :: "real \<Rightarrow> vec \<Rightarrow> vec" where
  "smul c v = map ((*) c) v"

text \<open>Modelled from the spec: the zero vector of a given length (engine arithmetic).\<close>

definition zeros :: "nat \<Rightarrow> vec" where
  "zeros n = replicate n 0"

text \<open>Modelled from the spec: the Euclidean norm the residual is measured in.\<close>

definition vnorm :: "vec \<Rightarrow> real" where
  "vnorm v = sqrt (dot v v)"

text \<open>
  Modelled from the spec: the dense matrix-vector product \<open>m @ v\<close> (the engine's dense
  path is not in the sources).
\<close>

definition dense_mv :: "mat \<Rightarrow> vec \<Rightarrow> vec" where
  "dense_mv m v = map (\<lambda>row. dot row v) m"

text \<open>
  Modelled from the spec: \<open>dense_kron(A, B)\<close>, the dense Kronecker product, whose entry
  at row \<open>i * N + k\<close> and column \<open>j * N + l\<close> is \<open>A[i][j] * B[k][l]\<close> (not in the sources).
\<close>

definition dense_kron :: "mat \<Rightarrow> mat \<Rightarrow> mat" where
  "dense_kron a b =
     concat (map (\<lambda>ra. map (\<lambda>rb. concat (map (\<lambda>x. map ((*) x) rb) ra)) b) a)"

section \<open>Lazy matrix operators\<close>

text \<open>
  Modelled from the spec: the Lazy Matrix Operator and its structured variants (sections 3,
  4.1, 4.2 and the design note on an explicit tagged-variant tree with owned children); their
  code is not in the sources. The variants kept are the dense leaf, the diagonal (with the
  flag of a declared positive-definiteness contract), the Kronecker product and the sum.
\<close>

datatype operator =
    DenseOp mat
  | DiagOp bool vec
  | KronOp operator operator
  | SumOp operator operator

text \<open>Modelled from the spec: \<open>size()\<close>, the number of rows of the square matrix.\<close>

fun size_op :: "operator \<Rightarrow> nat" where
  "size_op (DenseOp m) = length m"
| "size_op (DiagOp pd d) = length d"
| "size_op (KronOp a b) = size_op a * size_op b"
| "size_op (SumOp a b) = size_op a"

text \<open>
  Modelled from the spec: the shape invariant of a constructed operator. Composition
  fails with ShapeMismatch when the operands' dimensions are incompatible, so an operator
  that exists has a square dense leaf everywhere and sums of equal sizes.
\<close>

fun well_formed :: "operator \<Rightarrow> bool" where
  "well_formed (DenseOp m) = list_all (\<lambda>row. length row = length m) m"
| "well_formed (DiagOp pd d) = True"
| "well_formed (KronOp a b) = (well_formed a \<and> well_formed b)"
| "well_formed (SumOp a b) = (well_formed a \<and> well_formed b \<and> size_op a = size_op b)"

text \<open>
  Modelled from the spec: the matrix-vector product of each variant (section 4.2). The
  diagonal scales element-wise, the sum distributes, and the Kronecker product of \<open>a\<close>
  (size \<open>M\<close>) and \<open>b\<close> (size \<open>N\<close>) is computed from products with \<open>a\<close> and \<open>b\<close> alone:
  the vector is cut into \<open>M\<close> blocks of length \<open>N\<close>, \<open>b\<close> is applied to each block, and
  \<open>a\<close> is applied across the blocks, position by position.
\<close>

fun blocks :: "nat \<Rightarrow> nat \<Rightarrow> vec \<Rightarrow> vec list" where
  "blocks 0 n v = []"
| "blocks (Suc m) n v = take n v # blocks m n (drop n v)"

fun mv :: "operator \<Rightarrow> vec \<Rightarrow> vec" where
  "mv (DenseOp m) v = dense_mv m v"
| "mv (DiagOp pd d) v = map2 (*) d v"
| "mv (SumOp a b) v = vadd (mv a v) (mv b v)"
| "mv (KronOp a b) v =
     (let w = map (mv b) (blocks (size_op a) (size_op b) v);
          d = map (\<lambda>l. mv a (map (\<lambda>u. u ! l) w)) [0..<size_op b]
      in concat (map (\<lambda>i. map (\<lambda>u. u ! i) d) [0..<size_op a]))"

text \<open>
  Modelled from the spec: the error taxonomy of section 7 and the public \<open>matmul\<close>,
  which fails with ShapeMismatch on a vector of the wrong length. A convergence shortfall
  is a warning, not an error.
\<close>

datatype error = ShapeMismatch | NumericalError

datatype warning = ConvergenceWarning

definition matmul :: "operator \<Rightarrow> vec \<Rightarrow> error + vec" where
  "matmul a v = (if length v = size_op a then Inr (mv a v) else Inl ShapeMismatch)"

text \<open>Modelled from the spec: \<open>to_dense()\<close>, the dense matrix an operator stands for.\<close>

fun to_dense :: "operator \<Rightarrow> mat" where
  "to_dense (DenseOp m) = m"
| "to_dense (DiagOp pd d) = map (\<lambda>i. (zeros (length d))[i := d ! i]) [0..<length d]"
| "to_dense (SumOp a b) = map2 vadd (to_dense a) (to_dense b)"
| "to_dense (KronOp a b) = dense_kron (to_dense a) (to_dense b)"

section \<open>The iterative solver\<close>

text \<open>
  Modelled from the spec: the configuration surface of section 6, as far as a solve reads
  it: the iteration cap, the convergence tolerance and the floating-point precision. The
  spec performs all operations at the configured precision; a precision is given by its
  rounding function, which maps a real to the nearest number the precision represents.
\<close>

record cg_config =
  max_cg_iterations :: nat
  cg_tolerance :: real
  float_precision :: "real \<Rightarrow> real"

text \<open>Modelled from the spec: the precision that rounds nothing.\<close>

definition exact :: "real \<Rightarrow> real" where
  "exact x = x"

text \<open>
  Modelled from the spec: the Solver State of section 3 (current solution estimate,
  residual, search direction, iteration counter), with the inner product of the residual
  and the preconditioned residual of the previous iteration, which the recurrence divides
  by.
\<close>

record solver_state =
  estimate :: vec
  residual :: vec
  direction :: vec
  residual_inner :: real
  iteration :: nat

text \<open>
  Modelled from the spec: what a solve returns (section 7): the best available estimate,
  the number of iterations run and the warning, if any.
\<close>

record solve_result =
  solution :: vec
  iterations :: nat
  warning :: "warning option"

text \<open>
  Modelled from the spec: why an iteration stopped: the tolerance was met, the iteration
  cap was reached, or the values left the finite numbers.
\<close>

datatype stop = Converged | CapReached | NonFinite

text \<open>
  Modelled from the spec: the stopping test of section 4.3, "the relative residual norm
  falls below tolerance". The relative residual norm is the norm of the residual divided
  by the norm of the right-hand side; for a right-hand side of norm zero, where the
  quotient is undefined, the norm of the residual itself is taken.
\<close>

definition rel_residual :: "vec \<Rightarrow> vec \<Rightarrow> real" where
  "rel_residual r b = (if vnorm b = 0 then vnorm r else vnorm r / vnorm b)"

text \<open>Modelled from the spec: the stopping test itself.\<close>

definition converged :: "real \<Rightarrow> vec \<Rightarrow> vec \<Rightarrow> bool" where
  "converged tol r b = (rel_residual r b < tol)"

text \<open>
  Modelled from the spec: the Preconditioner of section 4.4, an optional auxiliary
  operator whose contract is \<open>apply(vector) -> vector\<close>. It is given as the operator
  whose product is \<open>apply\<close>; without one the residual is passed on unchanged.
\<close>

definition apply_preconditioner :: "operator option \<Rightarrow> vec \<Rightarrow> vec" where
  "apply_preconditioner P r = (case P of None \<Rightarrow> r | Some m \<Rightarrow> mv m r)"

text \<open>
  Modelled from the spec: a fresh state per call: the estimate is zero and the residual is
  \<open>b - A x\<close> for it, rounded to the precision \<open>fl\<close>.
\<close>

definition initial_state :: "(real \<Rightarrow> real) \<Rightarrow> operator \<Rightarrow> vec \<Rightarrow> solver_state" where
  "initial_state fl A b =
     (let x0 = zeros (length b)
      in \<lparr>estimate = x0, residual = map fl (vsub b (mv A x0)), direction = x0,
          residual_inner = 1, iteration = 0\<rparr>)"

text \<open>
  Modelled from the spec: one iteration of the standard preconditioned conjugate-gradient
  recurrence of section 4.3, using only products with \<open>A\<close>:
  \<open>z = apply r\<close>, \<open>p = z + (r.z / r'.z') p'\<close> (the primed values are those of the previous
  iteration; \<open>p = z\<close> in the first), \<open>alpha = r.z / p.Ap\<close>, \<open>x = x + alpha p\<close>,
  \<open>r = r - alpha Ap\<close>. Every vector and scalar the recurrence computes is rounded to the
  precision \<open>fl\<close> (the accumulation inside one product is taken exact). A value leaves
  the finite numbers through a division by zero; the step returns \<open>None\<close> when one of its
  two quotients has a zero divisor, that is when the new estimate would contain
  non-finite values.
\<close>

definition cg_step ::
  "(real \<Rightarrow> real) \<Rightarrow> operator \<Rightarrow> operator option \<Rightarrow> solver_state \<Rightarrow> solver_state option" where
  "cg_step fl A P s =
     (let r = residual s;
          z = map fl (apply_preconditioner P r);
          rz = fl (dot r z)
      in if iteration s \<noteq> 0 \<and> residual_inner s = 0 then None
         else
           let p = (if iteration s = 0 then z
                    else map fl (vadd z (smul (fl (rz / residual_inner s)) (direction s))));
               Ap = map fl (mv A p);
               pAp = fl (dot p Ap)
           in if pAp = 0 then None
              else
                let alpha = fl (rz / pAp)
                in Some \<lparr>estimate = map fl (vadd (estimate s) (smul alpha p)),
                         residual = map fl (vsub r (smul alpha Ap)),
                         direction = p,
                         residual_inner = rz,
                         iteration = iteration s + 1\<rparr>)"

text \<open>
  Modelled from the spec: the iteration of section 4.3. It stops when the relative
  residual norm is below the tolerance or when the iteration cap is reached (\<open>fuel\<close> is
  the number of iterations still allowed), and it is cut short when a step leaves the
  finite numbers. The states visited are returned with the reason of the stop, so that
  the course of a solve can be spoken about.
\<close>

fun cg_run :: "(real \<Rightarrow> real) \<Rightarrow> operator \<Rightarrow> operator option \<Rightarrow> real \<Rightarrow> vec \<Rightarrow> nat
    \<Rightarrow> solver_state \<Rightarrow> solver_state list \<times> stop" where
  "cg_run fl A P tol b fuel s =
     (if converged tol (residual s) b then ([s], Converged)
      else case fuel of
        0 \<Rightarrow> ([s], CapReached)
      | Suc k \<Rightarrow>
          (case cg_step fl A P s of
             None \<Rightarrow> ([s], NonFinite)
           | Some s' \<Rightarrow> (let (tr, st) = cg_run fl A P tol b k s' in (s # tr, st))))"

text \<open>
  Modelled from the spec: the shape check of a solve (section 7): the right-hand side and
  the preconditioner, if any, have the operator's size.
\<close>

definition shapes_ok :: "operator option \<Rightarrow> operator \<Rightarrow> vec \<Rightarrow> bool" where
  "shapes_ok P A b =
     (length b = size_op A \<and> (case P of None \<Rightarrow> True | Some m \<Rightarrow> size_op m = size_op A))"

text \<open>
  Modelled from the spec: the Iterative Solver's solve (sections 4.3 and 7), used where no
  closed form applies. Incompatible dimensions are a ShapeMismatch. A solve that reaches
  the cap returns the best available estimate with a ConvergenceWarning; the shortfall
  becomes a NumericalError only when the estimate is not finite.
\<close>

definition cg_solve :: "cg_config \<Rightarrow> operator option \<Rightarrow> operator \<Rightarrow> vec \<Rightarrow> error + solve_result" where
  "cg_solve cfg P A b =
     (if shapes_ok P A b then
        let (tr, st) = cg_run (float_precision cfg) A P (cg_tolerance cfg) b
                         (max_cg_iterations cfg) (initial_state (float_precision cfg) A b);
            s = last tr
        in case st of
             Converged \<Rightarrow> Inr \<lparr>solution = estimate s, iterations = iteration s, warning = None\<rparr>
           | CapReached \<Rightarrow>
               Inr \<lparr>solution = estimate s, iterations = iteration s,
                    warning = Some ConvergenceWarning\<rparr>
           | NonFinite \<Rightarrow> Inl NumericalError
      else Inl ShapeMismatch)"

text \<open>
  Modelled from the spec: the closed-form solve of the Diagonal variant (section 4.2):
  element-wise division. Incompatible dimensions are a ShapeMismatch; under a declared
  positive-definiteness contract a non-positive entry is a NumericalError. Without the
  contract the spec is silent; a zero entry, whose quotient is not finite, is reported as
  a NumericalError as well.
\<close>

definition diag_solve :: "(real \<Rightarrow> real) \<Rightarrow> bool \<Rightarrow> vec \<Rightarrow> vec \<Rightarrow> error + solve_result" where
  "diag_solve fl pd d b =
     (if length b = length d then
        if pd \<and> list_ex (\<lambda>x. x \<le> 0) d then Inl NumericalError
        else if list_ex (\<lambda>x. x = 0) d then Inl NumericalError
        else Inr \<lparr>solution = map fl (map2 (/) b d), iterations = 0, warning = None\<rparr>
      else Inl ShapeMismatch)"

text \<open>
  Modelled from the spec: gathering the results of the solves a Kronecker solve is made
  of: the first error, if any, is the error of the whole; otherwise the solutions are
  kept, the iterations add up and a warning of any part is a warning of the whole.
\<close>

fun collect :: "(error + solve_result) list \<Rightarrow> error + (vec list \<times> nat \<times> warning option)" where
  "collect [] = Inr ([], 0, None)"
| "collect (Inl e # rs) = Inl e"
| "collect (Inr r # rs) =
     (case collect rs of
        Inl e \<Rightarrow> Inl e
      | Inr (xs, n, w) \<Rightarrow>
          Inr (solution r # xs, iterations r + n,
               (case warning r of None \<Rightarrow> w | Some c \<Rightarrow> Some c)))"

text \<open>
  Modelled from the spec: \<open>solve\<close>, by variant (section 4.2). The Diagonal solve is the
  element-wise division. The Kronecker solve of \<open>a\<close> (size \<open>M\<close>) and \<open>c\<close> (size \<open>N\<close>)
  decomposes into solves with \<open>a\<close> and \<open>c\<close> alone, along the lines of its product: \<open>c\<close> is
  solved on each of the \<open>M\<close> blocks and \<open>a\<close> across the blocks. A sum (a kernel matrix
  plus diagonal noise) and a dense leaf have no closed form and fall back to the Iterative
  Solver.
\<close>

fun solve :: "cg_config \<Rightarrow> operator option \<Rightarrow> operator \<Rightarrow> vec \<Rightarrow> error + solve_result" where
  "solve cfg P (DiagOp pd d) b = diag_solve (float_precision cfg) pd d b"
| "solve cfg P (KronOp a c) b =
     (if length b = size_op a * size_op c then
        case collect (map (solve cfg None c) (blocks (size_op a) (size_op c) b)) of
          Inl e \<Rightarrow> Inl e
        | Inr (ws, n1, w1) \<Rightarrow>
            (case collect (map (\<lambda>l. solve cfg None a (map (\<lambda>u. u ! l) ws)) [0..<size_op c]) of
               Inl e \<Rightarrow> Inl e
             | Inr (ds, n2, w2) \<Rightarrow>
                 Inr \<lparr>solution = concat (map (\<lambda>i. map (\<lambda>u. u ! i) ds) [0..<size_op a]),
                      iterations = n1 + n2,
                      warning = (case w1 of None \<Rightarrow> w2 | Some c \<Rightarrow> Some c)\<rparr>)
      else Inl ShapeMismatch)"
| "solve cfg P (DenseOp m) b = cg_solve cfg P (DenseOp m) b"
| "solve cfg P (SumOp a c) b = cg_solve cfg P (SumOp a c) b"

section \<open>The end-to-end scenario\<close>






definition one_decimal :: "real \<Rightarrow> real" where
  "one_decimal x = of_int \<lfloor>10 * x + 1 / 2\<rfloor> / 10"

section \<open>Notions the properties are stated with\<close>

text \<open>
  These are not code: the states a solve visits, the properties of an operator the
  solver is specified for (symmetric, positive definite), the quadratic energy
  \<open>x.Ax / 2 - b.x\<close> that conjugate gradients minimise, and the invariant of the iteration
  (the stored residual is the true residual \<open>b - A x\<close>, and it is orthogonal to the
  previous search direction).
\<close>

definition cg_history :: "cg_config \<Rightarrow> operator option \<Rightarrow> operator \<Rightarrow> vec \<Rightarrow> solver_state list" where
  "cg_history cfg P A b =
     fst (cg_run (float_precision cfg) A P (cg_tolerance cfg) b (max_cg_iterations cfg)
            (initial_state (float_precision cfg) A b))"

definition symmetric_op :: "operator \<Rightarrow> bool" where
  "symmetric_op A =
     (\<forall>x y. length x = size_op A \<and> length y = size_op A \<longrightarrow> dot x (mv A y) = dot (mv A x) y)"

definition positive_definite :: "operator \<Rightarrow> bool" where
  "positive_definite A =
     (\<forall>v. length v = size_op A \<and> v \<noteq> zeros (size_op A) \<longrightarrow> 0 < dot v (mv A v))"


definition preconditioner_ok :: "operator option \<Rightarrow> operator \<Rightarrow> bool" where
  "preconditioner_ok P A =
     (case P of None \<Rightarrow> True | Some m \<Rightarrow> well_formed m \<and> size_op m = size_op A)"

definition preconditioner_pd :: "operator option \<Rightarrow> bool" where
  "preconditioner_pd P = (case P of None \<Rightarrow> True | Some m \<Rightarrow> positive_definite m)"

definition energy :: "operator \<Rightarrow> vec \<Rightarrow> vec \<Rightarrow> real" where
  "energy A b x = dot x (mv A x) / 2 - dot b x"

definition cg_invariant :: "operator \<Rightarrow> vec \<Rightarrow> solver_state \<Rightarrow> bool" where
  "cg_invariant A b s =
     (length (estimate s) = size_op A \<and> length (residual s) = size_op A \<and>
      length (direction s) = size_op A \<and>
      residual s = vsub b (mv A (estimate s)) \<and>
      (iteration s = 0 \<or> dot (direction s) (residual s) = 0))"

section \<open>Properties of the notebook\<close>

lemma upt_6: "[0..<6] = [0, 1, 2, 3, 4, 5]"
  by (simp add: upt_rec)

text \<open>
  Claim C10. The training input of the example is exactly the six regularly spaced points
  \<open>0, 1/5, 2/5, 3/5, 4/5, 1\<close> of the interval \<open>[0, 1]\<close>, both ends included (six points, not
  the eleven of the comment above the line), and the training targets have the same
  length six, whatever the noise drawn.
\<close>

theorem train_x_six_points:
  "train_x = [0, 1/5, 2/5, 3/5, 4/5, 1] \<and> length train_x = 6 \<and> length train_x \<noteq> 11
   \<and> hd train_x = 0 \<and> last train_x = 1 \<and> length (train_y g) = 6"
  by (simp add: train_x_def train_y_def randn_def linspace_def upt_6)

section \<open>Vector algebra\<close>

lemma length_vadd [simp]: "length (vadd u v) = min (length u) (length v)"
  by (simp add: vadd_def)

lemma length_vsub [simp]: "length (vsub u v) = min (length u) (length v)"
  by (simp add: vsub_def)

lemma length_smul [simp]: "length (smul c v) = length v"
  by (simp add: smul_def)

lemma length_zeros [simp]: "length (zeros n) = n"
  by (simp add: zeros_def)

lemma length_dense_mv [simp]: "length (dense_mv m v) = length m"
  by (simp add: dense_mv_def)

lemma dot_Nil [simp]: "dot [] v = 0" "dot u [] = 0"
  by (simp_all add: dot_def)

lemma dot_Cons [simp]: "dot (x # u) (y # v) = x * y + dot u v"
  by (simp add: dot_def)

lemma dot_commute: "dot u v = dot v u"
proof (induction u arbitrary: v)
  case Nil
  show ?case by simp
next
  case (Cons x u)
  then show ?case by (cases v) simp_all
qed

lemma dot_smul_right [simp]: "dot u (smul c v) = c * dot u v"
proof (induction u arbitrary: v)
  case Nil
  show ?case by simp
next
  case (Cons x u)
  then show ?case by (cases v) (simp_all add: smul_def algebra_simps)
qed

lemma dot_smul_left [simp]: "dot (smul c u) v = c * dot u v"
  using dot_smul_right [of v c u] by (simp add: dot_commute)

lemma dot_vadd_right:
  "length v = length w \<Longrightarrow> dot u (vadd v w) = dot u v + dot u w"
proof (induction u arbitrary: v w)
  case Nil
  show ?case by simp
next
  case (Cons x u)
  show ?case
  proof (cases v)
    case Nil
    with Cons.prems show ?thesis by (simp add: vadd_def)
  next
    case (Cons y v')
    with Cons.prems obtain z w' where w: "w = z # w'" "length v' = length w'"
      by (cases w) auto
    have "dot u (vadd v' w') = dot u v' + dot u w'"
      using Cons.IH w(2) by blast
    then show ?thesis
      using Cons w by (simp add: vadd_def algebra_simps)
  qed
qed

lemma dot_vsub_right:
  "length v = length w \<Longrightarrow> dot u (vsub v w) = dot u v - dot u w"
proof (induction u arbitrary: v w)
  case Nil
  show ?case by simp
next
  case (Cons x u)
  show ?case
  proof (cases v)
    case Nil
    with Cons.prems show ?thesis by (simp add: vsub_def)
  next
    case (Cons y v')
    with Cons.prems obtain z w' where w: "w = z # w'" "length v' = length w'"
      by (cases w) auto
    have "dot u (vsub v' w') = dot u v' - dot u w'"
      using Cons.IH w(2) by blast
    then show ?thesis
      using Cons w by (simp add: vsub_def algebra_simps)
  qed
qed

lemma dot_vadd_left:
  "length u = length w \<Longrightarrow> dot (vadd u w) v = dot u v + dot w v"
  using dot_vadd_right [of u w v] by (simp add: dot_commute)

lemma dot_vsub_left:
  "length u = length w \<Longrightarrow> dot (vsub u w) v = dot u v - dot w v"
  using dot_vsub_right [of u w v] by (simp add: dot_commute)

lemma zeros_Suc: "zeros (Suc n) = 0 # zeros n"
  by (simp add: zeros_def)

lemma dot_zeros_left [simp]: "dot (zeros n) v = 0"
proof (induction n arbitrary: v)
  case 0
  show ?case by (simp add: zeros_def)
next
  case (Suc n)
  then show ?case by (cases v) (simp_all add: zeros_def)
qed

lemma dot_zeros_right [simp]: "dot v (zeros n) = 0"
  using dot_zeros_left [of n v] by (simp add: dot_commute)

lemma dot_append_left:
  "dot (xs @ ys) v = dot xs (take (length xs) v) + dot ys (drop (length xs) v)"
  by (simp add: dot_def zip_append1)

lemma dot_take_left: "dot xs (take (length xs) v) = dot xs v"
proof (induction xs arbitrary: v)
  case Nil
  show ?case by simp
next
  case (Cons x xs)
  then show ?case by (cases v) simp_all
qed

lemma dot_unit:
  "i < n \<Longrightarrow> length v = n \<Longrightarrow> dot ((zeros n)[i := x]) v = x * v ! i"
proof (induction n arbitrary: i v)
  case 0
  then show ?case by simp
next
  case (Suc n)
  then obtain y v' where v: "v = y # v'" "length v' = n"
    by (cases v) auto
  show ?case
  proof (cases i)
    case 0
    then show ?thesis using v by (simp add: zeros_Suc)
  next
    case (Suc j)
    then show ?thesis using v Suc.IH [of j v'] Suc.prems
      by (simp add: zeros_Suc)
  qed
qed

lemma length_blocks [simp]: "length (blocks m n v) = m"
  by (induction m n v rule: blocks.induct) simp_all

lemma blocks_length:
  "length v = m * n \<Longrightarrow> u \<in> set (blocks m n v) \<Longrightarrow> length u = n"
  by (induction m n v rule: blocks.induct) auto

lemma kron_row_dot:
  "length ra = m \<Longrightarrow> length rb = n \<Longrightarrow>
   dot (concat (map (\<lambda>x. map ((*) x) rb) ra)) v = dot ra (map (dot rb) (blocks m n v))"
proof (induction ra arbitrary: m v)
  case Nil
  then show ?case by simp
next
  case (Cons x ra)
  then obtain m' where m: "m = Suc m'" "length ra = m'"
    by (cases m) auto
  have "dot (map ((*) x) rb) (take n v) = x * dot rb (take n v)"
    using dot_smul_left [of x rb "take n v"] by (simp add: smul_def)
  moreover have "dot (concat (map (\<lambda>x. map ((*) x) rb) ra)) (drop n v)
      = dot ra (map (dot rb) (blocks m' n (drop n v)))"
    using Cons.IH [OF m(2) Cons.prems(2)] .
  ultimately show ?case
    using m Cons.prems(2) by (simp add: dot_append_left)
qed

lemma dot_self_nonneg: "0 \<le> dot v v"
  by (induction v) simp_all

lemma dot_self_zero_iff: "dot v v = 0 \<longleftrightarrow> v = zeros (length v)"
proof (induction v)
  case Nil
  show ?case by (simp add: zeros_def)
next
  case (Cons x v)
  have "x * x + dot v v = 0 \<longleftrightarrow> x = 0 \<and> dot v v = 0"
    using dot_self_nonneg [of v] by (simp add: add_nonneg_eq_0_iff)
  then show ?case using Cons by (simp add: zeros_Suc)
qed

lemma sqrt_less_iff_sq:
  assumes "0 \<le> x"
  shows "sqrt x < t \<longleftrightarrow> 0 < t \<and> x < t\<^sup>2"
proof (cases "0 < t")
  case True
  then have "sqrt (t\<^sup>2) = t" by simp
  then have "sqrt x < t \<longleftrightarrow> sqrt x < sqrt (t\<^sup>2)" by simp
  also have "\<dots> \<longleftrightarrow> x < t\<^sup>2" by (rule real_sqrt_less_iff)
  finally show ?thesis using True by simp
next
  case False
  then have "\<not> sqrt x < t"
    using real_sqrt_ge_zero [OF assms] by linarith
  then show ?thesis using False by blast
qed

lemma converged_iff:
  "converged tol r b \<longleftrightarrow>
     0 < tol \<and> dot r r < tol\<^sup>2 * (if dot b b = 0 then 1 else dot b b)"
proof (cases "dot b b = 0")
  case True
  then show ?thesis
    using sqrt_less_iff_sq [OF dot_self_nonneg, of r tol]
    by (simp add: converged_def rel_residual_def vnorm_def)
next
  case False
  then have pos: "0 < dot b b"
    using dot_self_nonneg [of b] by simp
  have "rel_residual r b = sqrt (dot r r / dot b b)"
    using False by (simp add: rel_residual_def vnorm_def real_sqrt_divide)
  moreover have "0 \<le> dot r r / dot b b"
    using pos dot_self_nonneg [of r] by simp
  ultimately have "converged tol r b \<longleftrightarrow> 0 < tol \<and> dot r r / dot b b < tol\<^sup>2"
    using sqrt_less_iff_sq by (simp add: converged_def)
  then show ?thesis
    using pos False by (simp add: pos_divide_less_eq)
qed

section \<open>The lazy product is the product with the dense matrix\<close>

text \<open>
  For every well-formed operator the product computed variant by variant is the product
  with the matrix \<open>to_dense\<close> gives. The linearity of the product, which the solver
  rests on, follows from it.
\<close>

lemma length_dense_kron: "length (dense_kron a b) = length a * length b"
  by (induction a) (simp_all add: dense_kron_def)

lemma length_kron_row:
  "length (concat (map (\<lambda>x. map ((*) x) rb) ra)) = length ra * length rb"
  by (induction ra) simp_all

lemma dense_kron_rows:
  "list_all (\<lambda>row. length row = m) a \<Longrightarrow> list_all (\<lambda>row. length row = n) b \<Longrightarrow>
   list_all (\<lambda>row. length row = m * n) (dense_kron a b)"
  by (auto simp: dense_kron_def list_all_iff length_kron_row)

lemma to_dense_shape:
  "well_formed a \<Longrightarrow>
   length (to_dense a) = size_op a \<and> list_all (\<lambda>row. length row = size_op a) (to_dense a)"
proof (induction a)
  case (DenseOp m)
  then show ?case by simp
next
  case (DiagOp pd d)
  show ?case by (simp add: list_all_iff)
next
  case (KronOp a b)
  then show ?case by (simp add: length_dense_kron dense_kron_rows)
next
  case (SumOp a b)
  have "length (vadd r1 r2) = size_op a"
    if "(r1, r2) \<in> set (zip (to_dense a) (to_dense b))" for r1 r2
  proof -
    have "r1 \<in> set (to_dense a)" "r2 \<in> set (to_dense b)"
      using that by (auto dest: set_zip_leftD set_zip_rightD)
    then show ?thesis
      using SumOp by (simp add: list_all_iff)
  qed
  then show ?case
    using SumOp by (auto simp: list_all_iff)
qed

lemma dense_mv_diag:
  assumes "length v = length d"
  shows "dense_mv (map (\<lambda>i. (zeros (length d))[i := d ! i]) [0..<length d]) v = map2 (*) d v"
proof (rule nth_equalityI)
  show "length (dense_mv (map (\<lambda>i. (zeros (length d))[i := d ! i]) [0..<length d]) v)
      = length (map2 (*) d v)"
    using assms by simp
next
  fix i
  assume "i < length (dense_mv (map (\<lambda>i. (zeros (length d))[i := d ! i]) [0..<length d]) v)"
  then have i: "i < length d" by simp
  then show "dense_mv (map (\<lambda>i. (zeros (length d))[i := d ! i]) [0..<length d]) v ! i
      = map2 (*) d v ! i"
    using assms by (simp add: dense_mv_def dot_unit)
qed

lemma nth_vadd: "i < length u \<Longrightarrow> i < length v \<Longrightarrow> vadd u v ! i = u ! i + v ! i"
  by (simp add: vadd_def)

lemma nth_vsub: "i < length u \<Longrightarrow> i < length v \<Longrightarrow> vsub u v ! i = u ! i - v ! i"
  by (simp add: vsub_def)

lemma dense_mv_vadd:
  assumes "length a = length b"
    and "list_all (\<lambda>row. length row = n) a" and "list_all (\<lambda>row. length row = n) b"
  shows "dense_mv (map2 vadd a b) v = vadd (dense_mv a v) (dense_mv b v)"
proof (rule nth_equalityI)
  show "length (dense_mv (map2 vadd a b) v) = length (vadd (dense_mv a v) (dense_mv b v))"
    using assms(1) by simp
next
  fix i
  assume "i < length (dense_mv (map2 vadd a b) v)"
  then have i: "i < length a" "i < length b"
    using assms(1) by simp_all
  then have "length (a ! i) = length (b ! i)"
    using assms(2,3) by (simp add: list_all_length)
  then show "dense_mv (map2 vadd a b) v ! i = vadd (dense_mv a v) (dense_mv b v) ! i"
    using i by (simp add: dense_mv_def nth_vadd dot_vadd_left)
qed

lemma length_concat_rows:
  "length (concat (map (\<lambda>i. map (f i) ds) [0..<m])) = m * length ds"
  by (induction m) simp_all

lemma length_mv:
  "well_formed a \<Longrightarrow> length v = size_op a \<Longrightarrow> length (mv a v) = size_op a"
proof (induction a arbitrary: v)
  case (KronOp a b)
  show ?case by (simp add: Let_def length_concat_rows)
qed simp_all

lemma dense_mv_kron:
  assumes a: "length a = m" "list_all (\<lambda>row. length row = m) a"
    and b: "length b = n" "list_all (\<lambda>row. length row = n) b"
  shows "dense_mv (dense_kron a b) v
     = concat (map (\<lambda>i. map (\<lambda>l. dot (a ! i) (map (dot (b ! l)) (blocks m n v))) [0..<n]) [0..<m])"
proof -
  have row: "dot (concat (map (\<lambda>x. map ((*) x) rb) ra)) v = dot ra (map (dot rb) (blocks m n v))"
    if "ra \<in> set a" "rb \<in> set b" for ra rb
    using that a(2) b(2) by (intro kron_row_dot) (simp_all add: list_all_iff)
  have "dense_mv (dense_kron a b) v
      = concat (map (\<lambda>ra. map (\<lambda>rb. dot (concat (map (\<lambda>x. map ((*) x) rb) ra)) v) b) a)"
    by (simp add: dense_mv_def dense_kron_def map_concat comp_def)
  also have "\<dots> = concat (map (\<lambda>ra. map (\<lambda>rb. dot ra (map (dot rb) (blocks m n v))) b) a)"
    using row by (intro arg_cong [where f = concat] map_cong refl) simp
  also have "\<dots> = concat (map (\<lambda>ra. map (\<lambda>l. dot ra (map (dot (b ! l)) (blocks m n v))) [0..<n]) a)"
  proof -
    have "map (\<lambda>rb. f rb) b = map (\<lambda>l. f (b ! l)) [0..<n]" for f :: "vec \<Rightarrow> real"
      using b(1) by (intro nth_equalityI) simp_all
    then show ?thesis by simp
  qed
  also have "\<dots> = concat (map (\<lambda>i. map (\<lambda>l. dot (a ! i) (map (dot (b ! l)) (blocks m n v))) [0..<n]) [0..<m])"
  proof -
    have "map (\<lambda>ra. g ra) a = map (\<lambda>i. g (a ! i)) [0..<m]" for g :: "vec \<Rightarrow> vec"
      using a(1) by (intro nth_equalityI) simp_all
    then show ?thesis by simp
  qed
  finally show ?thesis .
qed

lemma mv_dense:
  "well_formed a \<Longrightarrow> length v = size_op a \<Longrightarrow> mv a v = dense_mv (to_dense a) v"
proof (induction a arbitrary: v)
  case (DenseOp m)
  show ?case by simp
next
  case (DiagOp pd d)
  then show ?case by (simp add: dense_mv_diag)
next
  case (SumOp a b)
  then show ?case
    using to_dense_shape [of a] to_dense_shape [of b]
    by (simp add: dense_mv_vadd [where n = "size_op a"])
next
  case (KronOp a b)
  define m n where "m = size_op a" and "n = size_op b"
  define A B where "A = to_dense a" and "B = to_dense b"
  have wf: "well_formed a" "well_formed b"
    using KronOp.prems by simp_all
  have A: "length A = m" "list_all (\<lambda>row. length row = m) A"
    using to_dense_shape [OF wf(1)] by (simp_all add: A_def m_def)
  have B: "length B = n" "list_all (\<lambda>row. length row = n) B"
    using to_dense_shape [OF wf(2)] by (simp_all add: B_def n_def)
  have len: "length v = m * n"
    using KronOp.prems by (simp add: m_def n_def)
  define w where "w = map (mv b) (blocks m n v)"
  have col: "map (\<lambda>u. u ! l) w = map (dot (B ! l)) (blocks m n v)" if "l < n" for l
  proof -
    have "mv b u ! l = dot (B ! l) u" if "u \<in> set (blocks m n v)" for u
    proof -
      have "length u = n" using blocks_length [OF len that] .
      then have "mv b u = dense_mv B u"
        using KronOp.IH(2) [OF wf(2)] by (simp add: n_def B_def)
      then show ?thesis
        using \<open>l < n\<close> B(1) by (simp add: dense_mv_def)
    qed
    then show ?thesis by (simp add: w_def)
  qed
  have entry: "mv a (map (\<lambda>u. u ! l) w) ! i = dot (A ! i) (map (dot (B ! l)) (blocks m n v))"
    if "l < n" "i < m" for l i
  proof -
    have "length (map (\<lambda>u. u ! l) w) = size_op a"
      by (simp add: w_def m_def)
    then have "mv a (map (\<lambda>u. u ! l) w) = dense_mv A (map (\<lambda>u. u ! l) w)"
      using KronOp.IH(1) [OF wf(1)] by (simp add: A_def)
    then show ?thesis
      using that A(1) col by (simp add: dense_mv_def)
  qed
  have "mv (KronOp a b) v
      = concat (map (\<lambda>i. map (\<lambda>l. mv a (map (\<lambda>u. u ! l) w) ! i) [0..<n]) [0..<m])"
    by (simp add: Let_def w_def m_def n_def comp_def)
  also have "\<dots> = concat (map (\<lambda>i. map (\<lambda>l. dot (A ! i) (map (dot (B ! l)) (blocks m n v))) [0..<n]) [0..<m])"
    using entry by (intro arg_cong [where f = concat] map_cong refl) simp
  also have "\<dots> = dense_mv (dense_kron A B) v"
    using dense_mv_kron [OF A B] by simp
  finally show ?case by (simp add: A_def B_def)
qed

lemma map2_add_map: "map2 (+) (map f xs) (map g xs) = map (\<lambda>x. f x + (g x :: real)) xs"
  by (induction xs) simp_all

lemma dense_mv_vadd_right:
  "length u = length v \<Longrightarrow> dense_mv m (vadd u v) = vadd (dense_mv m u) (dense_mv m v)"
  by (simp add: dense_mv_def dot_vadd_right) (simp add: vadd_def map2_add_map)

lemma dense_mv_smul: "dense_mv m (smul c v) = smul c (dense_mv m v)"
  by (simp add: dense_mv_def) (simp add: smul_def)

lemma dense_mv_zeros: "dense_mv m (zeros n) = zeros (length m)"
  by (simp add: dense_mv_def) (simp add: zeros_def map_replicate_const)

lemma mv_vadd:
  assumes "well_formed a" "length u = size_op a" "length v = size_op a"
  shows "mv a (vadd u v) = vadd (mv a u) (mv a v)"
  using assms by (simp add: mv_dense dense_mv_vadd_right)

lemma mv_smul:
  assumes "well_formed a" "length v = size_op a"
  shows "mv a (smul c v) = smul c (mv a v)"
  using assms by (simp add: mv_dense dense_mv_smul)

lemma mv_zeros:
  assumes "well_formed a"
  shows "mv a (zeros (size_op a)) = zeros (size_op a)"
  using assms to_dense_shape [OF assms] by (simp add: mv_dense dense_mv_zeros)

lemma vsub_zeros: "length b = n \<Longrightarrow> vsub b (zeros n) = b"
  by (intro nth_equalityI) (simp_all add: nth_vsub, simp add: zeros_def)

lemma vsub_vadd:
  "length b = n \<Longrightarrow> length u = n \<Longrightarrow> length w = n \<Longrightarrow>
   vsub b (vadd u w) = vsub (vsub b u) w"
  by (intro nth_equalityI) (simp_all add: nth_vsub nth_vadd)

section \<open>The iteration at exact precision\<close>

lemma map_exact [simp]: "map exact v = v"
  by (induction v) (simp_all add: exact_def)

lemma cg_step_exact:
  "cg_step exact A P s =
     (let r = residual s;
          z = apply_preconditioner P r;
          rz = dot r z
      in if iteration s \<noteq> 0 \<and> residual_inner s = 0 then None
         else
           let p = (if iteration s = 0 then z
                    else vadd z (smul (rz / residual_inner s) (direction s)));
               Ap = mv A p;
               pAp = dot p Ap
           in if pAp = 0 then None
              else
                let alpha = rz / pAp
                in Some \<lparr>estimate = vadd (estimate s) (smul alpha p),
                         residual = vsub r (smul alpha Ap),
                         direction = p,
                         residual_inner = rz,
                         iteration = iteration s + 1\<rparr>)"
  by (simp add: cg_step_def Let_def) (simp add: exact_def)

lemma initial_state_exact:
  "initial_state exact A b =
     \<lparr>estimate = zeros (length b), residual = vsub b (mv A (zeros (length b))),
      direction = zeros (length b), residual_inner = 1, iteration = 0\<rparr>"
  by (simp add: initial_state_def Let_def)

section \<open>The invariant of the iteration\<close>

text \<open>
  A step keeps the lengths of the state's vectors, keeps the stored residual equal to
  the true residual \<open>b - A x\<close>, and leaves the new residual orthogonal to the direction
  it moved along. For a symmetric positive-definite operator it does not increase the
  energy.
\<close>

lemma length_apply_preconditioner:
  "preconditioner_ok P A \<Longrightarrow> length r = size_op A \<Longrightarrow>
   length (apply_preconditioner P r) = size_op A"
  by (auto simp: preconditioner_ok_def apply_preconditioner_def length_mv split: option.splits)

lemma initial_invariant:
  assumes "well_formed A" "length b = size_op A"
  shows "cg_invariant A b (initial_state exact A b)"
  using assms by (simp add: cg_invariant_def initial_state_exact mv_zeros vsub_zeros)

lemma initial_state_zero:
  assumes "well_formed A" "length b = size_op A"
  shows "initial_state exact A b =
    \<lparr>estimate = zeros (length b), residual = b, direction = zeros (length b),
     residual_inner = 1, iteration = 0\<rparr>"
  using assms by (simp add: initial_state_exact mv_zeros vsub_zeros)

lemma cg_invariantD:
  assumes "cg_invariant A b s"
  shows "length (estimate s) = size_op A" "length (residual s) = size_op A"
    "length (direction s) = size_op A" "residual s = vsub b (mv A (estimate s))"
    "iteration s \<noteq> 0 \<Longrightarrow> dot (direction s) (residual s) = 0"
  using assms unfolding cg_invariant_def by auto


lemma cg_step_SomeE:
  assumes "cg_step exact A P s = Some s'"
  obtains p where
    "p = (if iteration s = 0 then apply_preconditioner P (residual s)
          else vadd (apply_preconditioner P (residual s))
                 (smul (dot (residual s) (apply_preconditioner P (residual s)) / residual_inner s)
                    (direction s)))"
    "dot p (mv A p) \<noteq> 0"
    "estimate s' = vadd (estimate s)
        (smul (dot (residual s) (apply_preconditioner P (residual s)) / dot p (mv A p)) p)"
    "residual s' = vsub (residual s)
        (smul (dot (residual s) (apply_preconditioner P (residual s)) / dot p (mv A p)) (mv A p))"
    "direction s' = p"
    "iteration s' = Suc (iteration s)"
  using assms by (auto simp: cg_step_exact Let_def split: if_splits)

lemma step_direction_length:
  assumes "preconditioner_ok P A" "cg_invariant A b s"
    and "p = (if iteration s = 0 then apply_preconditioner P (residual s)
          else vadd (apply_preconditioner P (residual s))
                 (smul c (direction s)))"
  shows "length p = size_op A"
  using assms(3) cg_invariantD(2,3) [OF assms(2)] length_apply_preconditioner [OF assms(1)]
  by simp

lemma step_direction_dot:
  assumes "preconditioner_ok P A" "cg_invariant A b s"
    and "p = (if iteration s = 0 then apply_preconditioner P (residual s)
          else vadd (apply_preconditioner P (residual s))
                 (smul c (direction s)))"
  shows "dot p (residual s) = dot (residual s) (apply_preconditioner P (residual s))"
proof (cases "iteration s = 0")
  case True
  then show ?thesis using assms(3) by (simp add: dot_commute)
next
  case False
  then have "dot (direction s) (residual s) = 0"
    using cg_invariantD(5) [OF assms(2)] by blast
  moreover have "length (apply_preconditioner P (residual s)) = length (smul c (direction s))"
    using cg_invariantD(2,3) [OF assms(2)] length_apply_preconditioner [OF assms(1)] by simp
  ultimately have "dot (vadd (apply_preconditioner P (residual s)) (smul c (direction s)))
      (residual s) = dot (apply_preconditioner P (residual s)) (residual s)"
    by (simp add: dot_vadd_left)
  then show ?thesis
    using False assms(3) by (simp add: dot_commute)
qed

lemma cg_step_invariant:
  assumes wf: "well_formed A" and len: "length b = size_op A" and pre: "preconditioner_ok P A"
    and inv: "cg_invariant A b s" and step: "cg_step exact A P s = Some s'"
  shows "cg_invariant A b s'"
proof -
  define z where "z = apply_preconditioner P (residual s)"
  from step obtain p where p:
    "p = (if iteration s = 0 then z
          else vadd z (smul (dot (residual s) z / residual_inner s) (direction s)))"
    "dot p (mv A p) \<noteq> 0"
    "estimate s' = vadd (estimate s) (smul (dot (residual s) z / dot p (mv A p)) p)"
    "residual s' = vsub (residual s) (smul (dot (residual s) z / dot p (mv A p)) (mv A p))"
    "direction s' = p"
    "iteration s' = Suc (iteration s)"
    unfolding z_def by (rule cg_step_SomeE)
  define alpha where "alpha = dot (residual s) z / dot p (mv A p)"
  have lp: "length p = size_op A"
    using step_direction_length [OF pre inv] p(1) z_def by blast
  have lAp: "length (mv A p) = size_op A"
    using wf lp by (simp add: length_mv)
  have lx: "length (estimate s) = size_op A" and lr: "length (residual s) = size_op A"
    and r: "residual s = vsub b (mv A (estimate s))"
    using cg_invariantD [OF inv] by blast+
  have "mv A (estimate s') = vadd (mv A (estimate s)) (smul alpha (mv A p))"
    using wf lx lp by (simp add: p(3) alpha_def [symmetric] mv_vadd mv_smul)
  then have "vsub b (mv A (estimate s')) = vsub (vsub b (mv A (estimate s))) (smul alpha (mv A p))"
    using wf len lx lAp by (simp add: vsub_vadd [where n = "size_op A"] length_mv)
  also have "\<dots> = vsub (residual s) (smul alpha (mv A p))"
    by (simp only: r [symmetric])
  also have "\<dots> = residual s'"
    by (simp only: p(4) alpha_def)
  finally have res: "residual s' = vsub b (mv A (estimate s'))"
    by (rule sym)
  have "dot p (residual s) = dot (residual s) z"
    using step_direction_dot [OF pre inv] p(1) z_def by blast
  then have "dot p (residual s') = dot (residual s) z - alpha * dot p (mv A p)"
    using lr lAp by (simp add: p(4) alpha_def [symmetric] dot_vsub_right)
  then have orth: "dot (direction s') (residual s') = 0"
    using p(2) by (simp add: p(5) alpha_def)
  have lx': "length (estimate s') = size_op A"
    using lx lp by (simp add: p(3))
  have lr': "length (residual s') = size_op A"
    using lr lAp by (simp add: p(4))
  have ld': "length (direction s') = size_op A"
    using lp by (simp add: p(5))
  show ?thesis
    unfolding cg_invariant_def using lx' lr' ld' res orth by blast
qed

lemma cg_step_energy:
  assumes wf: "well_formed A" and len: "length b = size_op A" and pre: "preconditioner_ok P A"
    and sym: "symmetric_op A" and pd: "positive_definite A"
    and inv: "cg_invariant A b s" and step: "cg_step exact A P s = Some s'"
  shows "energy A b (estimate s') \<le> energy A b (estimate s)"
proof -
  define z where "z = apply_preconditioner P (residual s)"
  from step obtain p where p:
    "p = (if iteration s = 0 then z
          else vadd z (smul (dot (residual s) z / residual_inner s) (direction s)))"
    "dot p (mv A p) \<noteq> 0"
    "estimate s' = vadd (estimate s) (smul (dot (residual s) z / dot p (mv A p)) p)"
    unfolding z_def by (rule cg_step_SomeE)
  define x where "x = estimate s"
  define rz where "rz = dot (residual s) z"
  define pAp where "pAp = dot p (mv A p)"
  define alpha where "alpha = rz / pAp"
  have lp: "length p = size_op A"
    using step_direction_length [OF pre inv] p(1) z_def by blast
  have lAp: "length (mv A p) = size_op A"
    using wf lp by (simp add: length_mv)
  have lx: "length x = size_op A" and r: "residual s = vsub b (mv A x)"
    using cg_invariantD [OF inv] unfolding x_def by blast+
  have lAx: "length (mv A x) = size_op A"
    using wf lx by (simp add: length_mv)
  have x': "estimate s' = vadd x (smul alpha p)"
    by (simp add: p(3) x_def alpha_def rz_def pAp_def)
  have "p \<noteq> zeros (size_op A)"
  proof
    assume "p = zeros (size_op A)"
    then have "dot p (mv A p) = 0" by simp
    then show False using p(2) by simp
  qed
  then have pos: "0 < pAp"
    using pd lp by (simp add: positive_definite_def pAp_def)
  have pr: "dot p (residual s) = rz"
    using step_direction_dot [OF pre inv] p(1) z_def rz_def by blast
  then have pb: "dot p b = rz + dot p (mv A x)"
    using len lAx by (simp add: r dot_vsub_right)
  have symm: "dot x (mv A p) = dot p (mv A x)"
    using sym lx lp by (simp add: symmetric_op_def dot_commute)
  have Ax': "mv A (vadd x (smul alpha p)) = vadd (mv A x) (smul alpha (mv A p))"
    using wf lx lp by (simp add: mv_vadd mv_smul)
  have "dot (vadd x (smul alpha p)) (mv A (vadd x (smul alpha p)))
      = dot x (mv A x) + 2 * alpha * dot p (mv A x) + alpha * alpha * pAp"
    using lx lp lAx lAp
    by (simp add: Ax' dot_vadd_left dot_vadd_right symm pAp_def algebra_simps)
  moreover have "dot b (vadd x (smul alpha p)) = dot b x + alpha * dot p b"
    using lx lp by (simp add: dot_vadd_right dot_commute)
  ultimately have "energy A b (estimate s') - energy A b (estimate s)
      = alpha * alpha * pAp / 2 - alpha * rz"
    by (simp add: energy_def x' pb x_def [symmetric] algebra_simps)
  also have "\<dots> = - (rz * rz / pAp) / 2"
    using pos by (simp add: alpha_def field_simps)
  also have "\<dots> \<le> 0"
    using pos by simp
  finally show ?thesis by simp
qed

section \<open>The course of a solve\<close>

lemma cg_step_iteration:
  "cg_step fl A P s = Some s' \<Longrightarrow> iteration s' = Suc (iteration s)"
  by (auto simp: cg_step_def Let_def split: if_splits)

lemma cg_run_cases:
  obtains (converged) "converged tol (residual s) b" "cg_run fl A P tol b fuel s = ([s], Converged)"
  | (cap) "\<not> converged tol (residual s) b" "fuel = 0" "cg_run fl A P tol b fuel s = ([s], CapReached)"
  | (nonfinite) k where "\<not> converged tol (residual s) b" "fuel = Suc k" "cg_step fl A P s = None"
      "cg_run fl A P tol b fuel s = ([s], NonFinite)"
  | (step) k s' where "\<not> converged tol (residual s) b" "fuel = Suc k" "cg_step fl A P s = Some s'"
      "cg_run fl A P tol b fuel s = (s # fst (cg_run fl A P tol b k s'), snd (cg_run fl A P tol b k s'))"
proof (cases "converged tol (residual s) b")
  case True
  then show ?thesis using converged by simp
next
  case nc: False
  show ?thesis
  proof (cases fuel)
    case 0
    then show ?thesis using nc cap by simp
  next
    case (Suc k)
    show ?thesis
    proof (cases "cg_step fl A P s")
      case None
      then show ?thesis using nc Suc nonfinite by simp
    next
      case (Some s')
      then show ?thesis using nc Suc step [of k s'] by (simp add: split_beta)
    qed
  qed
qed

lemma cg_run_hd:
  "fst (cg_run fl A P tol b fuel s) \<noteq> [] \<and> hd (fst (cg_run fl A P tol b fuel s)) = s"
  by (cases rule: cg_run_cases [where tol = tol and s = s and b = b and fl = fl and A = A and P = P and fuel = fuel]) simp_all

lemma cg_run_energy:
  assumes wf: "well_formed A" and len: "length b = size_op A" and pre: "preconditioner_ok P A"
    and sym: "symmetric_op A" and pd: "positive_definite A"
  shows "cg_invariant A b s \<Longrightarrow>
    successively (\<lambda>s s'. energy A b (estimate s') \<le> energy A b (estimate s))
      (fst (cg_run exact A P tol b fuel s))"
proof (induction fuel arbitrary: s)
  case 0
  then show ?case by simp
next
  case (Suc fuel)
  show ?case
  proof (cases rule: cg_run_cases [where tol = tol and s = s and b = b and fl = exact and A = A and P = P and fuel = "Suc fuel"])
    case (step k s')
    then have k: "k = fuel" by simp
    have "cg_invariant A b s'"
      using cg_step_invariant [OF wf len pre Suc.prems step(3)] .
    then have "successively (\<lambda>s s'. energy A b (estimate s') \<le> energy A b (estimate s))
        (fst (cg_run exact A P tol b fuel s'))"
      by (rule Suc.IH)
    moreover have "energy A b (estimate s') \<le> energy A b (estimate s)"
      using cg_step_energy [OF wf len pre sym pd Suc.prems step(3)] .
    ultimately show ?thesis
      using cg_run_hd [of exact A P tol b fuel s'] step(4) k
      by (simp add: successively_Cons)
  qed simp_all
qed

lemma cg_run_last:
  assumes "cg_run fl A P tol b fuel s = (tr, st)"
  shows "tr \<noteq> [] \<and>
     map iteration tr = [iteration s..<iteration s + length tr] \<and>
     length tr \<le> Suc fuel \<and>
     list_all (\<lambda>t. \<not> converged tol (residual t) b) (butlast tr) \<and>
     (case st of
        Converged \<Rightarrow> converged tol (residual (last tr)) b
      | CapReached \<Rightarrow> \<not> converged tol (residual (last tr)) b \<and> length tr = Suc fuel
      | NonFinite \<Rightarrow> \<not> converged tol (residual (last tr)) b \<and> length tr \<le> fuel
          \<and> cg_step fl A P (last tr) = None)"
  using assms
proof (induction fuel arbitrary: s tr st)
  case 0
  then show ?case by (auto split: if_splits)
next
  case (Suc fuel)
  show ?case
  proof (cases rule: cg_run_cases [where tol = tol and s = s and b = b and fl = fl and A = A and P = P and fuel = "Suc fuel"])
    case converged
    then show ?thesis using Suc.prems by auto
  next
    case cap
    then show ?thesis by simp
  next
    case (nonfinite k)
    then show ?thesis using Suc.prems by auto
  next
    case (step k s')
    then have k: "k = fuel" by simp
    obtain tr' st' where run': "cg_run fl A P tol b fuel s' = (tr', st')"
      by (cases "cg_run fl A P tol b fuel s'")
    then have tr: "tr = s # tr'" "st = st'"
      using step(4) Suc.prems k by simp_all
    have it: "iteration s' = Suc (iteration s)"
      using step(3) by (rule cg_step_iteration)
    note IH = Suc.IH [OF run']
    have ne: "tr' \<noteq> []" using IH by blast
    have "map iteration tr = iteration s # [Suc (iteration s)..<Suc (iteration s) + length tr']"
      using IH it by (simp add: tr)
    also have "\<dots> = [iteration s..<iteration s + length tr]"
    proof -
      have "iteration s < iteration s + length tr"
        by (simp add: tr)
      then have "[iteration s..<iteration s + length tr]
          = iteration s # [Suc (iteration s)..<iteration s + length tr]"
        by (rule upt_conv_Cons)
      moreover have "iteration s + length tr = Suc (iteration s) + length tr'"
        by (simp add: tr)
      ultimately show ?thesis by (simp only:)
    qed
    finally have 1: "map iteration tr = [iteration s..<iteration s + length tr]" .
    have "butlast tr = s # butlast tr'"
      using ne by (simp add: tr)
    moreover have "list_all (\<lambda>t. \<not> converged tol (residual t) b) (butlast tr')"
      using IH by blast
    ultimately have 2: "list_all (\<lambda>t. \<not> converged tol (residual t) b) (butlast tr)"
      using step(1) by simp
    have 3: "last tr = last tr'" using ne by (simp add: tr)
    show ?thesis
      using IH 1 2 3 ne by (auto simp: tr split: stop.splits)
  qed
qed

lemma cg_run_invariant:
  assumes wf: "well_formed A" and len: "length b = size_op A" and pre: "preconditioner_ok P A"
  shows "cg_invariant A b s \<Longrightarrow> list_all (cg_invariant A b) (fst (cg_run exact A P tol b fuel s))"
proof (induction fuel arbitrary: s)
  case 0
  then show ?case by simp
next
  case (Suc fuel)
  show ?case
  proof (cases rule: cg_run_cases [where tol = tol and s = s and b = b and fl = exact and A = A and P = P and fuel = "Suc fuel"])
    case (step k s')
    then have k: "k = fuel" by simp
    have "cg_invariant A b s'"
      using cg_step_invariant [OF wf len pre Suc.prems step(3)] .
    then have "list_all (cg_invariant A b) (fst (cg_run exact A P tol b fuel s'))"
      by (rule Suc.IH)
    then show ?thesis
      using step(4) k Suc.prems by simp
  qed (use Suc.prems in simp_all)
qed

lemma shapes_ok_None [simp]: "shapes_ok None A b \<longleftrightarrow> length b = size_op A"
  by (simp add: shapes_ok_def)

lemma cg_solve_history:
  assumes "shapes_ok P A b"
  shows "cg_solve cfg P A b =
    (case snd (cg_run (float_precision cfg) A P (cg_tolerance cfg) b (max_cg_iterations cfg)
                 (initial_state (float_precision cfg) A b)) of
       Converged \<Rightarrow>
         Inr \<lparr>solution = estimate (last (cg_history cfg P A b)),
              iterations = iteration (last (cg_history cfg P A b)), warning = None\<rparr>
     | CapReached \<Rightarrow>
         Inr \<lparr>solution = estimate (last (cg_history cfg P A b)),
              iterations = iteration (last (cg_history cfg P A b)),
              warning = Some ConvergenceWarning\<rparr>
     | NonFinite \<Rightarrow> Inl NumericalError)"
  using assms unfolding cg_solve_def cg_history_def
  by (simp add: split_beta Let_def split: stop.splits)

text \<open>
  A worked example: the symmetric positive-definite operator \<open>diag(1, 100)\<close> and the
  right-hand side \<open>(10, 1)\<close>, without preconditioner and with tolerance \<open>1/100\<close>.
  Conjugate gradients reach the solution \<open>(10, 1/100)\<close> in two iterations; after the
  first the estimate is \<open>(101/20, 101/200)\<close> and the residual \<open>(99/20, -99/2)\<close>.
\<close>

declare cg_run.simps [simp del]

lemmas cg_eval =
  cg_run.simps converged_iff initial_state_exact cg_step_exact apply_preconditioner_def dense_mv_def
  zeros_def vsub_def vadd_def smul_def Let_def power2_eq_square

lemma example_run:
  "cg_run exact (DenseOp [[1, 0], [0, 100]]) None (1 / 100) [10, 1] 5
     (initial_state exact (DenseOp [[1, 0], [0, 100]]) [10, 1])
   = ([\<lparr>estimate = [0, 0], residual = [10, 1], direction = [0, 0],
         residual_inner = 1, iteration = 0\<rparr>,
       \<lparr>estimate = [101 / 20, 101 / 200], residual = [99 / 20, - (99 / 2)],
         direction = [10, 1], residual_inner = 101, iteration = 1\<rparr>,
       \<lparr>estimate = [10, 1 / 100], residual = [0, 0],
         direction = [9999 / 40, - (9999 / 400)], residual_inner = 989901 / 400,
         iteration = 2\<rparr>], Converged)"
  by (simp add: cg_eval)

lemma example_run_cap:
  "cg_run exact (DenseOp [[1, 0], [0, 100]]) None (1 / 100) [10, 1] (Suc 0)
     (initial_state exact (DenseOp [[1, 0], [0, 100]]) [10, 1])
   = ([\<lparr>estimate = [0, 0], residual = [10, 1], direction = [0, 0],
         residual_inner = 1, iteration = 0\<rparr>,
       \<lparr>estimate = [101 / 20, 101 / 200], residual = [99 / 20, - (99 / 2)],
         direction = [10, 1], residual_inner = 101, iteration = 1\<rparr>], CapReached)"
  by (simp add: cg_eval)

lemma length_two: "length v = 2 \<Longrightarrow> \<exists>x y. v = [x, y]"
  by (cases v; cases "tl v") auto

lemma example_symmetric: "symmetric_op (DenseOp [[1, 0], [0, 100]])"
  unfolding symmetric_op_def
proof (intro allI impI)
  fix x y :: vec
  assume "length x = size_op (DenseOp [[1, 0], [0, 100]]) \<and> length y = size_op (DenseOp [[1, 0], [0, 100]])"
  then obtain x1 x2 y1 y2 where "x = [x1, x2]" "y = [y1, y2]"
    using length_two [of x] length_two [of y] by auto
  then show "dot x (mv (DenseOp [[1, 0], [0, 100]]) y) = dot (mv (DenseOp [[1, 0], [0, 100]]) x) y"
    by (simp add: dense_mv_def)
qed

lemma example_positive_definite: "positive_definite (DenseOp [[1, 0], [0, 100]])"
  unfolding positive_definite_def
proof (intro allI impI)
  fix v :: vec
  assume a: "length v = size_op (DenseOp [[1, 0], [0, 100]]) \<and> v \<noteq> zeros (size_op (DenseOp [[1, 0], [0, 100]]))"
  then obtain x y where v: "v = [x, y]"
    using length_two [of v] by auto
  then have "x \<noteq> 0 \<or> y \<noteq> 0"
    using a by (auto simp: zeros_def)
  then have "0 < x * x + 100 * (y * y)"
    by (metis add_pos_nonneg add_nonneg_pos mult_pos_pos zero_less_numeral
        not_real_square_gt_zero zero_le_square mult_nonneg_nonneg zero_le_numeral)
  then show "0 < dot v (mv (DenseOp [[1, 0], [0, 100]]) v)"
    using v by (simp add: dense_mv_def algebra_simps)
qed


section \<open>A positive-definite system stays finite\<close>

lemma converged_zero_residual:
  assumes "0 < tol"
  shows "converged tol (zeros n) b"
proof -
  have "0 < (if dot b b = 0 then 1 else dot b b)"
    using dot_self_nonneg [of b] by simp
  then show ?thesis
    using assms by (simp add: converged_iff)
qed

lemma preconditioned_inner_positive:
  assumes "preconditioner_ok P A" and "preconditioner_pd P"
    and "length r = size_op A" and "r \<noteq> zeros (size_op A)"
  shows "0 < dot r (apply_preconditioner P r)"
proof (cases P)
  case None
  have "dot r r \<noteq> 0"
    using assms(3,4) by (simp add: dot_self_zero_iff)
  then show ?thesis
    using None dot_self_nonneg [of r] by (simp add: apply_preconditioner_def)
next
  case (Some m)
  then have "positive_definite m" "size_op m = size_op A"
    using assms(1,2) by (simp_all add: preconditioner_pd_def preconditioner_ok_def)
  then show ?thesis
    using Some assms(3,4) by (simp add: positive_definite_def apply_preconditioner_def)
qed

lemma cg_step_defined:
  assumes wf: "well_formed A" and len: "length b = size_op A" and pre: "preconditioner_ok P A"
    and pd: "positive_definite A" and ppd: "preconditioner_pd P"
    and inv: "cg_invariant A b s"
    and inner: "iteration s = 0 \<or> residual_inner s \<noteq> 0"
    and nz: "residual s \<noteq> zeros (size_op A)"
  shows "\<exists>s'. cg_step exact A P s = Some s' \<and> residual_inner s' \<noteq> 0"
proof -
  define z where "z = apply_preconditioner P (residual s)"
  define p where "p = (if iteration s = 0 then z
      else vadd z (smul (dot (residual s) z / residual_inner s) (direction s)))"
  have lr: "length (residual s) = size_op A"
    using cg_invariantD(2) [OF inv] .
  have rz: "0 < dot (residual s) z"
    unfolding z_def using preconditioned_inner_positive [OF pre ppd lr nz] .
  have lp: "length p = size_op A"
    using step_direction_length [OF pre inv] p_def z_def by blast
  have "dot p (residual s) = dot (residual s) z"
    using step_direction_dot [OF pre inv] p_def z_def by blast
  then have "dot p (residual s) \<noteq> 0"
    using rz by simp
  then have "p \<noteq> zeros (size_op A)"
    by auto
  then have "0 < dot p (mv A p)"
    using pd lp by (simp add: positive_definite_def)
  then show ?thesis
    using inner rz by (auto simp: cg_step_exact Let_def z_def p_def)
qed

lemma cg_run_finite:
  assumes wf: "well_formed A" and len: "length b = size_op A" and pre: "preconditioner_ok P A"
    and pd: "positive_definite A" and ppd: "preconditioner_pd P" and tol: "0 < tol"
  shows "cg_invariant A b s \<Longrightarrow> iteration s = 0 \<or> residual_inner s \<noteq> 0 \<Longrightarrow>
    snd (cg_run exact A P tol b fuel s) \<noteq> NonFinite"
proof (induction fuel arbitrary: s)
  case 0
  then show ?case by (simp add: cg_run.simps)
next
  case (Suc fuel)
  show ?case
  proof (cases rule: cg_run_cases [where tol = tol and s = s and b = b and fl = exact and A = A and P = P and fuel = "Suc fuel"])
    case converged
    then show ?thesis by simp
  next
    case cap
    then show ?thesis by simp
  next
    case (nonfinite k)
    have "residual s \<noteq> zeros (size_op A)"
      using nonfinite(1) converged_zero_residual [OF tol] by metis
    then have "\<exists>s'. cg_step exact A P s = Some s' \<and> residual_inner s' \<noteq> 0"
      using cg_step_defined [OF wf len pre pd ppd Suc.prems(1,2)] by blast
    then show ?thesis using nonfinite(3) by simp
  next
    case (step k s')
    then have k: "k = fuel" by simp
    have "residual s \<noteq> zeros (size_op A)"
      using step(1) converged_zero_residual [OF tol] by metis
    then have "\<exists>s'. cg_step exact A P s = Some s' \<and> residual_inner s' \<noteq> 0"
      using cg_step_defined [OF wf len pre pd ppd Suc.prems(1,2)] by blast
    then have "residual_inner s' \<noteq> 0"
      using step(3) by simp
    moreover have "cg_invariant A b s'"
      using cg_step_invariant [OF wf len pre Suc.prems(1) step(3)] .
    ultimately have "snd (cg_run exact A P tol b fuel s') \<noteq> NonFinite"
      using Suc.IH by blast
    then show ?thesis using step(4) k by simp
  qed
qed

lemma cg_solve_spd:
  assumes wf: "well_formed A" and pd: "positive_definite A"
    and ok: "shapes_ok P A b" and pre: "preconditioner_ok P A" and ppd: "preconditioner_pd P"
    and tol: "0 < cg_tolerance cfg" and ex: "float_precision cfg = exact"
  shows "\<exists>res. cg_solve cfg P A b = Inr res \<and> length (solution res) = size_op A \<and>
     (warning res = None \<and> converged (cg_tolerance cfg) (vsub b (mv A (solution res))) b
      \<or> warning res = Some ConvergenceWarning \<and> iterations res = max_cg_iterations cfg)"
proof -
  have len: "length b = size_op A"
    using ok by (simp add: shapes_ok_def)
  obtain tr st where run:
    "cg_run exact A P (cg_tolerance cfg) b (max_cg_iterations cfg) (initial_state exact A b)
      = (tr, st)"
    by (cases "cg_run exact A P (cg_tolerance cfg) b (max_cg_iterations cfg)
        (initial_state exact A b)")
  then have h: "cg_history cfg P A b = tr"
    by (simp add: cg_history_def ex)
  note inv0 = initial_invariant [OF wf len]
  have it0: "iteration (initial_state exact A b) = 0"
    by (simp add: initial_state_exact)
  have fin: "st \<noteq> NonFinite"
    using cg_run_finite [OF wf len pre pd ppd tol inv0, of "max_cg_iterations cfg"] it0 run
    by simp
  note last = cg_run_last [OF run]
  have ne: "tr \<noteq> []" and its: "map iteration tr = [0..<length tr]"
    using last it0 by simp_all
  have itl: "iteration (last tr) = length tr - 1"
    using ne its
    by (metis last_map last_upt length_greater_0_conv length_map)
  have "list_all (cg_invariant A b) tr"
    using cg_run_invariant [OF wf len pre inv0, of "cg_tolerance cfg" "max_cg_iterations cfg"] run
    by simp
  then have invl: "cg_invariant A b (last tr)"
    using ne by (simp add: list_all_iff)
  have res: "residual (last tr) = vsub b (mv A (estimate (last tr)))"
    and lx: "length (estimate (last tr)) = size_op A"
    using cg_invariantD [OF invl] by blast+
  have sol: "cg_solve cfg P A b =
    (case st of
       Converged \<Rightarrow>
         Inr \<lparr>solution = estimate (last tr), iterations = iteration (last tr), warning = None\<rparr>
     | CapReached \<Rightarrow>
         Inr \<lparr>solution = estimate (last tr), iterations = iteration (last tr),
              warning = Some ConvergenceWarning\<rparr>
     | NonFinite \<Rightarrow> Inl NumericalError)"
    using cg_solve_history [OF ok, of cfg] run unfolding h ex by simp
  show ?thesis
  proof (cases st)
    case Converged
    then have "converged (cg_tolerance cfg) (residual (last tr)) b"
      using last by simp
    then have "converged (cg_tolerance cfg) (vsub b (mv A (estimate (last tr)))) b"
      by (simp only: res [symmetric])
    then show ?thesis
      using Converged sol lx by simp
  next
    case CapReached
    then have "length tr = Suc (max_cg_iterations cfg)"
      using last by simp
    then have "iteration (last tr) = max_cg_iterations cfg"
      using itl by simp
    then show ?thesis
      using CapReached sol lx by simp
  next
    case NonFinite
    then show ?thesis using fin by simp
  qed
qed


section \<open>The end-to-end scenario: iterative solve against the dense solution\<close>










lemma cg_solve_zero_rhs:
  assumes "well_formed A" and "shapes_ok P A (zeros (size_op A))" and "0 < cg_tolerance cfg"
    and "float_precision cfg = exact"
  shows "cg_solve cfg P A (zeros (size_op A))
     = Inr \<lparr>solution = zeros (size_op A), iterations = 0, warning = None\<rparr>"
proof -
  have "initial_state exact A (zeros (size_op A)) =
      \<lparr>estimate = zeros (size_op A), residual = zeros (size_op A),
       direction = zeros (size_op A), residual_inner = 1, iteration = 0\<rparr>"
    using initial_state_zero [OF assms(1), of "zeros (size_op A)"] by simp
  moreover have "converged (cg_tolerance cfg) (zeros (size_op A)) (zeros (size_op A))"
    using assms(3) by (rule converged_zero_residual)
  ultimately have "cg_run exact A P (cg_tolerance cfg) (zeros (size_op A)) (max_cg_iterations cfg)
      (initial_state exact A (zeros (size_op A)))
    = ([\<lparr>estimate = zeros (size_op A), residual = zeros (size_op A),
         direction = zeros (size_op A), residual_inner = 1, iteration = 0\<rparr>], Converged)"
    by (simp add: cg_run.simps)
  then show ?thesis
    using assms(2,4) by (simp add: cg_solve_history cg_history_def)
qed












section \<open>Further properties of the solver and operator model\<close>

text \<open>
  The residual of an iterative solve at exact precision. For a well-formed positive-definite
  operator, a positive tolerance and a positive-definite preconditioner (or none) the
  solve always returns an estimate: either without warning, and then applying the operator
  to it approximates the right-hand side within the tolerance, or with a
  ConvergenceWarning after exactly the capped number of iterations.
\<close>

theorem cg_solve_residual:
  assumes "well_formed A" and "positive_definite A"
    and "shapes_ok P A b" and "preconditioner_ok P A" and "preconditioner_pd P"
    and "0 < cg_tolerance cfg" and "float_precision cfg = exact"
  shows "\<exists>res. cg_solve cfg P A b = Inr res \<and>
     (warning res = None \<and> rel_residual (vsub b (mv A (solution res))) b < cg_tolerance cfg
      \<or> warning res = Some ConvergenceWarning \<and> iterations res = max_cg_iterations cfg)"
  using cg_solve_spd [OF assms] unfolding converged_def by blast

text \<open>
  Two ways to miss the tolerance. With the iteration cap 1 the solve of the dense system
  \<open>[[1, 0], [0, 100]] x = (10, 1)\<close> returns the first iterate with a ConvergenceWarning,
  far from the tolerance. And at a precision of one decimal digit the solve of
  \<open>(1 + 0.04) x = 1\<close> stops without warning at \<open>x = 1\<close>, the rounded recurrence having
  reached the residual zero, while the true relative residual is \<open>0.04\<close>.
\<close>

theorem cap_residual_example:
  "solve \<lparr>max_cg_iterations = 1, cg_tolerance = 1 / 100, float_precision = exact\<rparr> None
       (DenseOp [[1, 0], [0, 100]]) [10, 1]
       = Inr \<lparr>solution = [101 / 20, 101 / 200], iterations = 1,
              warning = Some ConvergenceWarning\<rparr>
   \<and> vsub [10, 1] (mv (DenseOp [[1, 0], [0, 100]]) [101 / 20, 101 / 200])
       = [99 / 20, - (99 / 2)]
   \<and> \<not> rel_residual [99 / 20, - (99 / 2)] [10, 1] < 1 / 100"
proof -
  have "solve \<lparr>max_cg_iterations = 1, cg_tolerance = 1 / 100, float_precision = exact\<rparr> None
       (DenseOp [[1, 0], [0, 100]]) [10, 1]
       = Inr \<lparr>solution = [101 / 20, 101 / 200], iterations = 1,
              warning = Some ConvergenceWarning\<rparr>"
    by (simp add: cg_solve_history cg_history_def example_run_cap)
  moreover have "vsub [10, 1] (mv (DenseOp [[1, 0], [0, 100]]) [101 / 20, 101 / 200])
      = [99 / 20, - (99 / 2)]"
    by (simp add: vsub_def dense_mv_def)
  moreover have "\<not> converged (1 / 100) [99 / 20, - (99 / 2)] [10, 1]"
    by (simp add: converged_iff power2_eq_square)
  then have "\<not> rel_residual [99 / 20, - (99 / 2)] [10, 1] < 1 / 100"
    unfolding converged_def .
  ultimately show ?thesis by simp
qed

lemma one_decimal_values:
  "one_decimal 0 = 0" "one_decimal 1 = 1" "one_decimal (26 / 25) = 1"
  by (simp_all add: one_decimal_def)

theorem rounding_residual_example:
  "solve \<lparr>max_cg_iterations = 5, cg_tolerance = 1 / 100, float_precision = one_decimal\<rparr> None
       (SumOp (DenseOp [[1]]) (DiagOp True [4 / 100])) [1]
       = Inr \<lparr>solution = [1], iterations = 1, warning = None\<rparr>
   \<and> vsub [1] (mv (SumOp (DenseOp [[1]]) (DiagOp True [4 / 100])) [1]) = [- (1 / 25)]
   \<and> rel_residual [- (1 / 25)] [1] = 1 / 25"
proof -
  have "solve \<lparr>max_cg_iterations = 5, cg_tolerance = 1 / 100, float_precision = one_decimal\<rparr> None
       (SumOp (DenseOp [[1]]) (DiagOp True [4 / 100])) [1]
       = Inr \<lparr>solution = [1], iterations = 1, warning = None\<rparr>"
    by (simp add: cg_solve_def shapes_ok_def cg_run.simps converged_iff initial_state_def
        cg_step_def apply_preconditioner_def dense_mv_def zeros_def vsub_def vadd_def smul_def
        Let_def power2_eq_square one_decimal_values)
  moreover have "vsub [1] (mv (SumOp (DenseOp [[1]]) (DiagOp True [4 / 100])) [1]) = [- (1 / 25)]"
    by (simp add: vsub_def vadd_def dense_mv_def)
  moreover have "rel_residual [- (1 / 25)] [1] = 1 / 25"
    by (simp add: rel_residual_def vnorm_def real_sqrt_divide)
  ultimately show ?thesis by simp
qed


text \<open>
  The outcome of an iterative solve, at any precision. With compatible shapes the
  iterations are numbered from zero, none before the last satisfies the stopping test, and
  the solve ends in one of three ways: the stopping test holds and the estimate is
  returned without warning; the cap is reached and the estimate is returned with a
  ConvergenceWarning; or the next step leaves the finite numbers before the cap and the
  solve fails with a NumericalError. With incompatible shapes it fails with ShapeMismatch.
\<close>

lemma last_upt_map:
  assumes "h \<noteq> []" "map f h = [0..<length h]"
  shows "f (last h) = length h - 1"
proof -
  have "f (last h) = last (map f h)"
    using assms(1) by (simp add: last_map)
  also have "\<dots> = length h - 1"
    using assms by (simp add: last_upt)
  finally show ?thesis .
qed

theorem cg_solve_outcome:
  "if shapes_ok P A b then
     cg_history cfg P A b \<noteq> []
     \<and> map iteration (cg_history cfg P A b) = [0..<length (cg_history cfg P A b)]
     \<and> iteration (last (cg_history cfg P A b)) \<le> max_cg_iterations cfg
     \<and> list_all (\<lambda>t. \<not> rel_residual (residual t) b < cg_tolerance cfg)
          (butlast (cg_history cfg P A b))
     \<and> (rel_residual (residual (last (cg_history cfg P A b))) b < cg_tolerance cfg
          \<and> cg_solve cfg P A b =
              Inr \<lparr>solution = estimate (last (cg_history cfg P A b)),
                   iterations = iteration (last (cg_history cfg P A b)), warning = None\<rparr>
        \<or> \<not> rel_residual (residual (last (cg_history cfg P A b))) b < cg_tolerance cfg
          \<and> iteration (last (cg_history cfg P A b)) = max_cg_iterations cfg
          \<and> cg_solve cfg P A b =
              Inr \<lparr>solution = estimate (last (cg_history cfg P A b)),
                   iterations = max_cg_iterations cfg, warning = Some ConvergenceWarning\<rparr>
        \<or> \<not> rel_residual (residual (last (cg_history cfg P A b))) b < cg_tolerance cfg
          \<and> iteration (last (cg_history cfg P A b)) < max_cg_iterations cfg
          \<and> cg_step (float_precision cfg) A P (last (cg_history cfg P A b)) = None
          \<and> cg_solve cfg P A b = Inl NumericalError)
   else cg_solve cfg P A b = Inl ShapeMismatch"
proof (cases "shapes_ok P A b")
  case False
  then show ?thesis by (simp add: cg_solve_def)
next
  case ok: True
  define h where "h = cg_history cfg P A b"
  define fl where "fl = float_precision cfg"
  obtain tr st where run:
    "cg_run fl A P (cg_tolerance cfg) b (max_cg_iterations cfg) (initial_state fl A b) = (tr, st)"
    by (cases "cg_run fl A P (cg_tolerance cfg) b (max_cg_iterations cfg) (initial_state fl A b)")
  then have h: "h = tr"
    by (simp add: h_def fl_def cg_history_def)
  note last = cg_run_last [OF run, unfolded converged_def]
  have it0: "iteration (initial_state fl A b) = 0"
    by (simp add: initial_state_def Let_def)
  have ne: "h \<noteq> []" and its: "map iteration h = [0..<length h]"
    and le: "length h \<le> Suc (max_cg_iterations cfg)"
    and early: "list_all (\<lambda>t. \<not> rel_residual (residual t) b < cg_tolerance cfg) (butlast h)"
    using last it0 by (simp_all add: h)
  have itl: "iteration (last h) = length h - 1"
    using last_upt_map [OF ne its] .
  have sol: "cg_solve cfg P A b =
    (case st of
       Converged \<Rightarrow>
         Inr \<lparr>solution = estimate (last h), iterations = iteration (last h), warning = None\<rparr>
     | CapReached \<Rightarrow>
         Inr \<lparr>solution = estimate (last h), iterations = iteration (last h),
              warning = Some ConvergenceWarning\<rparr>
     | NonFinite \<Rightarrow> Inl NumericalError)"
    using cg_solve_history [OF ok, of cfg] run unfolding h_def fl_def by simp
  have "rel_residual (residual (last h)) b < cg_tolerance cfg
          \<and> cg_solve cfg P A b =
              Inr \<lparr>solution = estimate (last h), iterations = iteration (last h), warning = None\<rparr>
        \<or> \<not> rel_residual (residual (last h)) b < cg_tolerance cfg
          \<and> iteration (last h) = max_cg_iterations cfg
          \<and> cg_solve cfg P A b =
              Inr \<lparr>solution = estimate (last h), iterations = max_cg_iterations cfg,
                   warning = Some ConvergenceWarning\<rparr>
        \<or> \<not> rel_residual (residual (last h)) b < cg_tolerance cfg
          \<and> iteration (last h) < max_cg_iterations cfg
          \<and> cg_step fl A P (last h) = None
          \<and> cg_solve cfg P A b = Inl NumericalError"
  proof (cases st)
    case Converged
    then show ?thesis using last sol by (simp add: h)
  next
    case CapReached
    then have "length h = Suc (max_cg_iterations cfg)"
      using last by (simp add: h)
    then have "iteration (last h) = max_cg_iterations cfg"
      using itl by simp
    then show ?thesis using CapReached last sol by (simp add: h)
  next
    case NonFinite
    then have "length h \<le> max_cg_iterations cfg"
      using last by (simp add: h)
    then have "iteration (last h) < max_cg_iterations cfg"
      using itl ne by (cases h) simp_all
    then show ?thesis using NonFinite last sol by (simp add: h)
  qed
  moreover have "iteration (last h) \<le> max_cg_iterations cfg"
    using itl le by simp
  ultimately show ?thesis
    using ok ne its early unfolding h_def fl_def by simp
qed

lemma zero_matrix_run:
  "cg_run exact (DenseOp [[0]]) None (1 / 100) [1] 5 (initial_state exact (DenseOp [[0]]) [1])
   = ([\<lparr>estimate = [0], residual = [1], direction = [0], residual_inner = 1,
        iteration = 0\<rparr>], NonFinite)"
  by (simp add: cg_eval)

theorem cg_solve_outcome_example:
  "cg_solve \<lparr>max_cg_iterations = 5, cg_tolerance = 1 / 100, float_precision = exact\<rparr> None
       (DenseOp [[1, 0], [0, 100]]) [10, 1]
     = Inr \<lparr>solution = [10, 1 / 100], iterations = 2, warning = None\<rparr>
   \<and> cg_solve \<lparr>max_cg_iterations = 1, cg_tolerance = 1 / 100, float_precision = exact\<rparr> None
       (DenseOp [[1, 0], [0, 100]]) [10, 1]
     = Inr \<lparr>solution = [101 / 20, 101 / 200], iterations = 1,
            warning = Some ConvergenceWarning\<rparr>
   \<and> cg_solve \<lparr>max_cg_iterations = 5, cg_tolerance = 1 / 100, float_precision = exact\<rparr> None
       (DenseOp [[0]]) [1]
     = Inl NumericalError
   \<and> cg_solve \<lparr>max_cg_iterations = 5, cg_tolerance = 1 / 100, float_precision = exact\<rparr> None
       (DenseOp [[1, 0], [0, 100]]) [10]
     = Inl ShapeMismatch"
proof -
  have c: "converged (1 / 100) [0, 0] [10, 1]"
    "\<not> converged (1 / 100) [99 / 20, - (99 / 2)] [10, 1]"
    "\<not> converged (1 / 100) [1] [1]"
    by (simp_all add: converged_iff power2_eq_square)
  have step: "cg_step exact (DenseOp [[0]]) None
      \<lparr>estimate = [0], residual = [1], direction = [0], residual_inner = 1, iteration = 0\<rparr>
     = None"
    by (simp add: cg_step_exact apply_preconditioner_def dense_mv_def)
  show ?thesis
    using cg_solve_outcome [of None "DenseOp [[1, 0], [0, 100]]" "[10, 1]"
        "\<lparr>max_cg_iterations = 5, cg_tolerance = 1 / 100, float_precision = exact\<rparr>"]
      cg_solve_outcome [of None "DenseOp [[1, 0], [0, 100]]" "[10, 1]"
        "\<lparr>max_cg_iterations = 1, cg_tolerance = 1 / 100, float_precision = exact\<rparr>"]
      cg_solve_outcome [of None "DenseOp [[0]]" "[1]"
        "\<lparr>max_cg_iterations = 5, cg_tolerance = 1 / 100, float_precision = exact\<rparr>"]
      cg_solve_outcome [of None "DenseOp [[1, 0], [0, 100]]" "[10]"
        "\<lparr>max_cg_iterations = 5, cg_tolerance = 1 / 100, float_precision = exact\<rparr>"]
      c [unfolded converged_def] step
    by (simp add: cg_history_def example_run example_run_cap zero_matrix_run)
qed

text \<open>
  A zero right-hand side: at exact precision and with a positive tolerance the stopping
  test holds for the initial state, and the iterative solve returns the zero solution
  after zero iterations.
\<close>

theorem solve_zero_rhs_example:
  "solve \<lparr>max_cg_iterations = 5, cg_tolerance = 1 / 100, float_precision = exact\<rparr>
     (Some (DiagOp False [1, 1 / 100]))
     (SumOp (DenseOp [[2, 1], [1, 2]]) (DiagOp True [1, 100])) [0, 0]
   = Inr \<lparr>solution = [0, 0], iterations = 0, warning = None\<rparr>"
  using cg_solve_zero_rhs [of "SumOp (DenseOp [[2, 1], [1, 2]]) (DiagOp True [1, 100])"
      "Some (DiagOp False [1, 1 / 100])"
      "\<lparr>max_cg_iterations = 5, cg_tolerance = 1 / 100, float_precision = exact\<rparr>"]
  by (simp add: shapes_ok_def zeros_def)

text \<open>
  The residual norm of conjugate gradients is not monotone: in the worked example it grows
  more than fourfold in the first iteration. What does not increase from one iteration to
  the next, for a symmetric positive-definite operator at exact precision, is the energy
  \<open>x.Ax / 2 - b.x\<close>.
\<close>

theorem residual_norm_can_increase:
  "well_formed (DenseOp [[1, 0], [0, 100]]) \<and> symmetric_op (DenseOp [[1, 0], [0, 100]])
   \<and> positive_definite (DenseOp [[1, 0], [0, 100]])
   \<and> map residual
       (cg_history \<lparr>max_cg_iterations = 5, cg_tolerance = 1 / 100, float_precision = exact\<rparr>
          None (DenseOp [[1, 0], [0, 100]]) [10, 1])
       = [[10, 1], [99 / 20, - (99 / 2)], [0, 0]]
   \<and> 4 * vnorm [10, 1] < vnorm [99 / 20, - (99 / 2)]
   \<and> \<not> successively (\<lambda>s s'. vnorm (residual s') \<le> vnorm (residual s))
         (cg_history \<lparr>max_cg_iterations = 5, cg_tolerance = 1 / 100, float_precision = exact\<rparr>
            None (DenseOp [[1, 0], [0, 100]]) [10, 1])"
proof -
  have "4 * vnorm [10, 1] = sqrt 1616"
    by (simp add: vnorm_def real_sqrt_mult [of 16 101, simplified])
  moreover have "vnorm [99 / 20, - (99 / 2)] = sqrt (989901 / 400)"
    by (simp add: vnorm_def)
  ultimately have big: "4 * vnorm [10, 1] < vnorm [99 / 20, - (99 / 2)]"
    by (simp del: real_sqrt_divide)
  have "0 \<le> vnorm [10, 1]"
    by (simp add: vnorm_def)
  then have "\<not> vnorm [99 / 20, - (99 / 2)] \<le> vnorm [10, 1]"
    using big by linarith
  then show ?thesis
    using big example_symmetric example_positive_definite
    by (simp add: cg_history_def example_run)
qed

theorem energy_nonincreasing:
  assumes "well_formed A" and "shapes_ok P A b" and "preconditioner_ok P A"
    and "symmetric_op A" and "positive_definite A" and "float_precision cfg = exact"
  shows "successively (\<lambda>s s'. energy A b (estimate s') \<le> energy A b (estimate s))
     (cg_history cfg P A b)"
proof -
  have len: "length b = size_op A"
    using assms(2) by (simp add: shapes_ok_def)
  show ?thesis
    unfolding cg_history_def assms(6)
    using cg_run_energy [OF assms(1) len assms(3,4,5) initial_invariant [OF assms(1) len]] .
qed

theorem energy_nonincreasing_example:
  "map (\<lambda>s. energy (DenseOp [[1, 0], [0, 100]]) [10, 1] (estimate s))
     (cg_history \<lparr>max_cg_iterations = 5, cg_tolerance = 1 / 100, float_precision = exact\<rparr>
        None (DenseOp [[1, 0], [0, 100]]) [10, 1])
     = [0, - (10201 / 400), - (10001 / 200)]
   \<and> successively (\<lambda>s s'. energy (DenseOp [[1, 0], [0, 100]]) [10, 1] (estimate s')
          \<le> energy (DenseOp [[1, 0], [0, 100]]) [10, 1] (estimate s))
       (cg_history \<lparr>max_cg_iterations = 5, cg_tolerance = 1 / 100, float_precision = exact\<rparr>
          None (DenseOp [[1, 0], [0, 100]]) [10, 1])"
proof -
  have "well_formed (DenseOp [[1, 0], [0, 100]])"
    "shapes_ok None (DenseOp [[1, 0], [0, 100]]) [10, 1]"
    "preconditioner_ok None (DenseOp [[1, 0], [0, 100]])"
    by (simp_all add: preconditioner_ok_def)
  from energy_nonincreasing [OF this example_symmetric example_positive_definite,
      of "\<lparr>max_cg_iterations = 5, cg_tolerance = 1 / 100, float_precision = exact\<rparr>"]
  show ?thesis
    by (simp add: cg_history_def example_run energy_def dense_mv_def)
qed

text \<open>
  The Kronecker operator of operators of size 3 and 4: its matrix-vector product is the
  product with the dense Kronecker product of their dense matrices.
\<close>

theorem kron_matmul_dense:
  assumes "well_formed A" and "well_formed B" and "size_op A = 3" and "size_op B = 4"
    and "length v = 12"
  shows "matmul (KronOp A B) v = Inr (dense_mv (dense_kron (to_dense A) (to_dense B)) v)"
proof -
  have "well_formed (KronOp A B)" "length v = size_op (KronOp A B)"
    using assms by simp_all
  then have "mv (KronOp A B) v = dense_mv (to_dense (KronOp A B)) v"
    by (rule mv_dense)
  then show ?thesis
    using assms by (simp add: matmul_def)
qed

theorem kron_matmul_dense_example:
  "matmul (KronOp (DenseOp [[2, 1, 0], [1, 2, 1], [0, 1, 2]]) (DiagOp False [1, 2, 3, 4]))
     [1, 2, 3, 4, 5, 6, 7, 8, 9, 10, 11, 12]
   = Inr [7, 20, 39, 64, 20, 48, 84, 128, 23, 52, 87, 128]"
  using kron_matmul_dense [of "DenseOp [[2, 1, 0], [1, 2, 1], [0, 1, 2]]"
      "DiagOp False [1, 2, 3, 4]" "[1, 2, 3, 4, 5, 6, 7, 8, 9, 10, 11, 12]"]
  by (simp add: dense_kron_def dense_mv_def zeros_def)

text \<open>
  The Diagonal solve. Under a declared positive-definiteness contract a non-positive entry
  makes the solve fail with a NumericalError; with positive entries and at exact precision
  the element-wise quotient is returned after zero iterations, and the operator applied to
  it gives back the right-hand side.
\<close>

theorem diagonal_solve_contract:
  assumes "length b = length d" and "x \<in> set d" and "x \<le> 0"
  shows "solve cfg P (DiagOp True d) b = Inl NumericalError"
  using assms by (auto simp: diag_solve_def list_ex_iff)

theorem diagonal_solve_contract_example:
  "solve \<lparr>max_cg_iterations = 5, cg_tolerance = 1 / 100, float_precision = exact\<rparr> None
     (DiagOp True [1, 0, 2]) [1, 1, 1] = Inl NumericalError"
  using diagonal_solve_contract [where b = "[1, 1, 1]" and d = "[1, 0, 2]" and x = 0 and P = None
      and cfg = "\<lparr>max_cg_iterations = 5, cg_tolerance = 1 / 100, float_precision = exact\<rparr>"]
  by simp

lemma map2_mult_divide:
  "length b = length d \<Longrightarrow> \<forall>x\<in>set d. x \<noteq> 0 \<Longrightarrow>
     map2 (*) d (map2 (/) b d) = (b :: vec)"
  by (induction b d rule: list_induct2) simp_all

theorem diagonal_solve_exact:
  assumes "length b = length d" and "\<forall>x\<in>set d. 0 < x" and "float_precision cfg = exact"
  shows "solve cfg P (DiagOp pd d) b
       = Inr \<lparr>solution = map2 (/) b d, iterations = 0, warning = None\<rparr>
     \<and> mv (DiagOp pd d) (map2 (/) b d) = b"
proof -
  have nz: "\<forall>x\<in>set d. x \<noteq> 0" and np: "\<not> list_ex (\<lambda>x. x \<le> 0) d"
    using assms(2) by (auto simp: list_ex_iff)
  then have "\<not> list_ex (\<lambda>x. x = 0) d"
    by (auto simp: list_ex_iff)
  then show ?thesis
    using assms(1,3) np map2_mult_divide [OF assms(1) nz] by (simp add: diag_solve_def exact_def)
qed

theorem diagonal_solve_exact_example:
  "solve \<lparr>max_cg_iterations = 5, cg_tolerance = 1 / 100, float_precision = exact\<rparr> None
       (DiagOp True [1, 100]) [10, 1]
     = Inr \<lparr>solution = [10, 1 / 100], iterations = 0, warning = None\<rparr>
   \<and> mv (DiagOp True [1, 100]) [10, 1 / 100] = [10, 1]"
  using diagonal_solve_exact [where b = "[10, 1]" and d = "[1, 100]" and P = None and pd = True
      and cfg = "\<lparr>max_cg_iterations = 5, cg_tolerance = 1 / 100, float_precision = exact\<rparr>"]
  by simp

end
